theory Spec2Isabelle
  imports Complex_Main
begin

section \<open>JavaScript string primitives\<close>

text \<open>
  A JavaScript string is modelled as a \<^typ>\<open>string\<close>: a list of code units, one
  \<^typ>\<open>char\<close> per unit. The functions below are the string methods and regular
  expression classes used by the barcode engine.
\<close>

definition isDigit :: "char \<Rightarrow> bool" where
  \<comment> \<open>the regular expression class \<open>\d\<close>: the ASCII digits only\<close>
  "isDigit c = (c \<in> set ''0123456789'')"

definition stripNonDigits :: "string \<Rightarrow> string" where
  \<comment> \<open>\<open>s.replace(/\D/g, '')\<close>\<close>
  "stripNonDigits s = filter isDigit s"

definition padStart :: "nat \<Rightarrow> char \<Rightarrow> string \<Rightarrow> string" where
  \<comment> \<open>\<open>s.padStart(n, c)\<close> for a one-character filler\<close>
  "padStart n c s = replicate (n - length s) c @ s"

definition startsWith :: "string \<Rightarrow> string \<Rightarrow> bool" where
  \<comment> \<open>\<open>s.startsWith(p)\<close>\<close>
  "startsWith s p = (take (length p) s = p)"

definition substring :: "string \<Rightarrow> nat \<Rightarrow> nat \<Rightarrow> string" where
  \<comment> \<open>\<open>s.substring(a, b)\<close> for \<open>a \<le> b\<close>; both ends are clamped to the length\<close>
  "substring s a b = take (b - a) (drop a s)"

definition sliceLast :: "nat \<Rightarrow> string \<Rightarrow> string" where
  \<comment> \<open>\<open>s.slice(-n)\<close>: the last \<open>n\<close> code units, the whole string when it is shorter\<close>
  "sliceLast n s = drop (length s - n) s"

definition stripLeadingZeros :: "string \<Rightarrow> string" where
  \<comment> \<open>\<open>s.replace(/^0+/, '')\<close>\<close>
  "stripLeadingZeros s = dropWhile (\<lambda>c. c = CHR ''0'') s"

definition dropFirstZero :: "string \<Rightarrow> string" where
  \<comment> \<open>\<open>s.startsWith('0') ? s.substring(1) : s\<close>\<close>
  "dropFirstZero s = (if startsWith s ''0'' then drop 1 s else s)"

definition isSpace :: "char \<Rightarrow> bool" where
  \<comment> \<open>the code units below 256 that \<open>trim()\<close> removes: TAB, LF, VT, FF, CR, SP, NBSP\<close>
  "isSpace c = (of_char c \<in> {9, 10, 11, 12, 13, 32, 160 :: nat})"

definition trim :: "string \<Rightarrow> string" where
  \<comment> \<open>\<open>s.trim()\<close>\<close>
  "trim s = rev (dropWhile isSpace (rev (dropWhile isSpace s)))"

definition replaceGS :: "string \<Rightarrow> string" where
  \<comment> \<open>\<open>s.replace(/\x1d/g, '|')\<close>\<close>
  "replaceGS s = map (\<lambda>c. if c = CHR 0x1D then CHR ''|'' else c) s"

definition includesChar :: "string \<Rightarrow> char \<Rightarrow> bool" where
  \<comment> \<open>\<open>s.includes(c)\<close> for a one-character needle\<close>
  "includesChar s c = (c \<in> set s)"

definition testDigits :: "nat \<Rightarrow> nat \<Rightarrow> string \<Rightarrow> bool" where
  \<comment> \<open>\<open>/^\d{lo,hi}$/.test(s)\<close>; without the \<open>m\<close> flag \<open>$\<close> is the end of the input\<close>
  "testDigits lo hi s = (lo \<le> length s \<and> length s \<le> hi \<and> (\<forall>c\<in>set s. isDigit c))"

definition testTwoDigitPrefix :: "string \<Rightarrow> bool" where
  \<comment> \<open>\<open>/^\d{2}/.test(s)\<close>\<close>
  "testTwoDigitPrefix s = (length s \<ge> 2 \<and> (\<forall>c\<in>set (take 2 s). isDigit c))"

text \<open>
  \<open>s.match(/TAG(CLS{lo,hi})/)\<close> for a literal, non-empty \<open>TAG\<close> and a character class
  \<open>CLS\<close>: the leftmost position where the tag is followed by at least \<open>lo\<close> characters
  of the class; the greedy capture group takes as many of them as it can, at most \<open>hi\<close>
  (\<open>None\<close> for no upper bound). The result is the capture group.
\<close>

fun matchAfter :: "string \<Rightarrow> (char \<Rightarrow> bool) \<Rightarrow> nat \<Rightarrow> nat option \<Rightarrow> string \<Rightarrow> string option" where
  "matchAfter tag cls lo hi [] = None"
| "matchAfter tag cls lo hi (c # cs) =
     (let run = takeWhile cls (drop (length tag) (c # cs))
      in if startsWith (c # cs) tag \<and> length run \<ge> lo
         then Some (case hi of None \<Rightarrow> run | Some h \<Rightarrow> take h run)
         else matchAfter tag cls lo hi cs)"

definition digitVal :: "char \<Rightarrow> nat" where
  "digitVal c = of_char c - 48"

definition decimalValue :: "string \<Rightarrow> nat" where
  \<comment> \<open>the number a string of digits denotes in base ten\<close>
  "decimalValue s = foldl (\<lambda>a c. 10 * a + digitVal c) 0 s"

definition parseInt :: "string \<Rightarrow> nat option" where
  \<comment> \<open>\<open>parseInt(s)\<close> on the strings the decoder passes, which start with a digit or are
      empty: the value of the leading digits, \<open>None\<close> for \<open>NaN\<close>\<close>
  "parseInt s = (let ds = takeWhile isDigit s in if ds = [] then None else Some (decimalValue ds))"

function natToString :: "nat \<Rightarrow> string" where
  "natToString n =
     (if n < 10 then [''0123456789'' ! n]
      else natToString (n div 10) @ [''0123456789'' ! (n mod 10)])"
  by pat_completeness auto
termination
  by (relation "measure id") auto

declare natToString.simps [simp del]

definition intToString :: "int \<Rightarrow> string" where
  \<comment> \<open>\<open>String(n)\<close> for an integer Number\<close>
  "intToString n = (if n < 0 then CHR ''-'' # natToString (nat (- n)) else natToString (nat n))"

section \<open>The Date built-in\<close>

text \<open>
  A \<open>Date\<close> holds a time value: the milliseconds since 1970-01-01T00:00:00Z, or \<open>NaN\<close>
  for an invalid date, modelled as \<^typ>\<open>int option\<close>. The functions follow the
  abstract operations of the ECMAScript specification (\<open>DayFromYear\<close>, \<open>YearFromTime\<close>,
  \<open>MonthFromTime\<close>, \<open>DateFromTime\<close>, \<open>MakeDay\<close>, \<open>TimeClip\<close>). The host supplies the
  current time and the local time zone, taken here as one fixed offset from UTC.
\<close>

datatype js_error = RangeError

record js_env =
  tzOffset :: int  \<comment> \<open>local time minus UTC, in milliseconds\<close>
  now :: int  \<comment> \<open>the time value of \<open>new Date()\<close>\<close>

definition msPerDay :: int where
  "msPerDay = 86400000"

definition isLeapYear :: "int \<Rightarrow> bool" where
  "isLeapYear y = (y mod 4 = 0 \<and> (y mod 100 \<noteq> 0 \<or> y mod 400 = 0))"

definition dayFromYear :: "int \<Rightarrow> int" where
  \<comment> \<open>the day number of January 1st of year \<open>y\<close>\<close>
  "dayFromYear y =
     365 * (y - 1970) + (y - 1969) div 4 - (y - 1901) div 100 + (y - 1601) div 400"

definition monthLengths :: "int \<Rightarrow> int list" where
  "monthLengths y =
     [31, if isLeapYear y then 29 else 28, 31, 30, 31, 30, 31, 31, 30, 31, 30, 31]"

definition makeDay :: "int \<Rightarrow> int \<Rightarrow> int \<Rightarrow> int" where
  \<comment> \<open>\<open>MakeDay(year, month, date)\<close>: months and days out of range carry over\<close>
  "makeDay year month date =
     (let ym = year + month div 12; mn = month mod 12
      in dayFromYear ym + sum_list (take (nat mn) (monthLengths ym)) + date - 1)"

text \<open>
  \<open>YearFromTime\<close>: the largest year whose January 1st is on or before the day. The search
  starts at a year that is not after the day and moves forward one year at a time.
\<close>

function yearSearch :: "int \<Rightarrow> int \<Rightarrow> int" where
  "yearSearch y day = (if dayFromYear (y + 1) \<le> day then yearSearch (y + 1) day else y)"
  by pat_completeness auto
termination
proof (relation "measure (\<lambda>(y, day). nat (day + 1 - dayFromYear (y + 1)))")
  show "wf (measure (\<lambda>(y, day). nat (day + 1 - dayFromYear (y + 1))))"
    by simp
  show "((y + 1, day), (y, day)) \<in> measure (\<lambda>(y, day). nat (day + 1 - dayFromYear (y + 1)))"
    if "dayFromYear (y + 1) \<le> day" for y day
  proof -
    have "(y + 1 - 1969) div 4 \<le> (y + 2 - 1969) div 4"
      by (rule zdiv_mono1) simp_all
    moreover have "(y + 1 - 1601) div 400 \<le> (y + 2 - 1601) div 400"
      by (rule zdiv_mono1) simp_all
    moreover have "(y + 2 - 1901) div 100 \<le> (y + 1 - 1901 + 100) div 100"
      by (rule zdiv_mono1) simp_all
    then have "(y + 2 - 1901) div 100 \<le> (y + 1 - 1901) div 100 + 1"
      by simp
    ultimately have "dayFromYear (y + 1) < dayFromYear (y + 1 + 1)"
      by (simp add: dayFromYear_def)
    with that show ?thesis by simp
  qed
qed

declare yearSearch.simps [simp del]

definition yearFromDay :: "int \<Rightarrow> int" where
  "yearFromDay day =
     yearSearch (if 0 \<le> day then 1970 + day div 366 else 1970 + day div 365 - 1) day"

fun monthDate :: "int list \<Rightarrow> int \<Rightarrow> int \<Rightarrow> int \<times> int" where
  \<comment> \<open>\<open>MonthFromTime\<close> and \<open>DateFromTime\<close>: month index and day of the month of the
      \<open>k\<close>-th day of a year with the given month lengths\<close>
  "monthDate [] m k = (m, k + 1)"
| "monthDate (l # ls) m k = (if k < l then (m, k + 1) else monthDate ls (m + 1) (k - l))"

definition dateFromDay :: "int \<Rightarrow> int \<times> int \<times> int" where
  \<comment> \<open>year, month index (0 to 11) and day of the month of a day number\<close>
  "dateFromDay day =
     (let y = yearFromDay day in (y, monthDate (monthLengths y) 0 (day - dayFromYear y)))"

definition timeClip :: "int \<Rightarrow> int option" where
  "timeClip t = (if \<bar>t\<bar> \<le> 8640000000000000 then Some t else None)"

definition newDateLocal :: "js_env \<Rightarrow> int \<Rightarrow> int \<Rightarrow> int \<Rightarrow> int option" where
  \<comment> \<open>\<open>new Date(year, monthIndex, day)\<close>: midnight local time\<close>
  "newDateLocal env year monthIndex day =
     (let yr = (if 0 \<le> year \<and> year \<le> 99 then 1900 + year else year)
      in timeClip (makeDay yr monthIndex day * msPerDay - tzOffset env))"

definition getDate :: "js_env \<Rightarrow> int option \<Rightarrow> int option" where
  \<comment> \<open>\<open>d.getDate()\<close>: the local day of the month, \<open>NaN\<close> for an invalid date\<close>
  "getDate env d =
     (case d of
        None \<Rightarrow> None
      | Some t \<Rightarrow> Some (snd (snd (dateFromDay ((t + tzOffset env) div msPerDay)))))"

definition setHoursZero :: "js_env \<Rightarrow> int option \<Rightarrow> int option" where
  \<comment> \<open>\<open>d.setHours(0, 0, 0, 0)\<close>: midnight of the local day of \<open>d\<close>\<close>
  "setHoursZero env d =
     (case d of
        None \<Rightarrow> None
      | Some t \<Rightarrow> timeClip ((t + tzOffset env) div msPerDay * msPerDay - tzOffset env))"

definition isoYear :: "int \<Rightarrow> string" where
  \<comment> \<open>four digits for the years 0 to 9999, a sign and six digits otherwise\<close>
  "isoYear y =
     (if 0 \<le> y \<and> y \<le> 9999 then padStart 4 CHR ''0'' (natToString (nat y))
      else (if y < 0 then CHR ''-'' else CHR ''+'') # padStart 6 CHR ''0'' (natToString (nat \<bar>y\<bar>)))"

definition toISODate :: "int option \<Rightarrow> js_error + string" where
  \<comment> \<open>\<open>d.toISOString().split('T')[0]\<close>: the UTC calendar date; \<open>toISOString\<close> throws a
      \<open>RangeError\<close> on an invalid date\<close>
  "toISODate d =
     (case d of
        None \<Rightarrow> Inl RangeError
      | Some t \<Rightarrow>
          (case dateFromDay (t div msPerDay) of
             (y, m, dd) \<Rightarrow>
               Inr (isoYear y @ ''-'' @ padStart 2 CHR ''0'' (natToString (nat (m + 1)))
                    @ ''-'' @ padStart 2 CHR ''0'' (natToString (nat dd)))))"

definition dateParse :: "string \<Rightarrow> int option" where
  \<comment> \<open>\<open>new Date(s)\<close> for the date-only form \<open>YYYY-MM-DD\<close>, which denotes midnight UTC.
      A string of any other form is parsed in an implementation-defined way; the model
      gives it the invalid date.\<close>
  "dateParse s =
     (if length s = 10 \<and> s ! 4 = CHR ''-'' \<and> s ! 7 = CHR ''-''
         \<and> (\<forall>c\<in>set (take 4 s @ substring s 5 7 @ substring s 8 10). isDigit c)
      then
        (let y = int (decimalValue (take 4 s));
             m = int (decimalValue (substring s 5 7));
             d = int (decimalValue (substring s 8 10))
         in if 1 \<le> m \<and> m \<le> 12 \<and> 1 \<le> d \<and> d \<le> monthLengths y ! nat (m - 1)
            then Some (makeDay y (m - 1) d * msPerDay)
            else None)
      else None)"

section \<open>GS1 barcode parsing\<close>

datatype js_value = JSString string | NonString

datatype expiry_status = Missing | Expired | Soon | Ok

text \<open>
  A Number that holds an integer or \<open>Infinity\<close>. \<open>toNumber\<close> is the conversion of a
  mathematical integer to the nearest double (ties to even), which is the identity up to
  \<open>2^53\<close> and gives \<open>Infinity\<close> from \<open>2^1024 - 2^970\<close> on.
\<close>

datatype js_number = Num int | Infinity

function bitLength :: "nat \<Rightarrow> nat" where
  "bitLength n = (if n = 0 then 0 else Suc (bitLength (n div 2)))"
  by pat_completeness auto
termination
  by (relation "measure id") auto

declare bitLength.simps [simp del]

definition toNumber :: "nat \<Rightarrow> js_number" where
  "toNumber v =
     (if v < 2 ^ 53 then Num (int v)
      else
        let e = bitLength v - 53;
            q = v div 2 ^ e; r = v mod 2 ^ e; h = 2 ^ (e - 1);
            q' = (if r > h \<or> (r = h \<and> odd q) then q + 1 else q)
        in if q' * 2 ^ e \<ge> 2 ^ 1024 then Infinity else Num (int (q' * 2 ^ e)))"

record parsed_code =
  valid :: bool
  raw :: js_value
  gtin14 :: string
  gtin13 :: string
  expiry :: "string option"
  expiryDDMMYY :: string
  expiryFormatted :: string
  expiryStatus :: expiry_status
  batch :: string
  serial :: string
  qty :: js_number
  rms :: string

record expiry_parts =
  iso :: string
  ddmmyy :: string
  formatted :: string

definition CONFIG_EXPIRY_SOON_DAYS :: int where
  "CONFIG_EXPIRY_SOON_DAYS = 90"

definition aiLengths :: "string \<rightharpoonup> int" where
  "aiLengths = map_of
     [(''01'', 14), (''02'', 14),
      (''10'', -1), (''21'', -1), (''22'', -1),
      (''11'', 6), (''13'', 6), (''15'', 6), (''17'', 6),
      (''30'', -1), (''37'', -1),
      (''00'', 18), (''20'', 2)]"

definition isKnownAI :: "string \<Rightarrow> bool" where
  \<comment> \<open>\<open>aiLengths[ai2] !== undefined || aiLengths[ai3] !== undefined\<close> at the start of \<open>s\<close>\<close>
  "isKnownAI s = (aiLengths (take 2 s) \<noteq> None \<or> aiLengths (take 3 s) \<noteq> None)"

definition lookupAI :: "string \<Rightarrow> (string \<times> int) option" where
  \<comment> \<open>the two-character identifier first, then the three-character one\<close>
  "lookupAI s =
     (case aiLengths (take 2 s) of
        Some l \<Rightarrow> Some (take 2 s, l)
      | None \<Rightarrow>
          (case aiLengths (take 3 s) of
             Some l \<Rightarrow> Some (take 3 s, l)
           | None \<Rightarrow> None))"

text \<open>
  The inner loop of \<open>convertToParenthesized\<close>, which reads a variable-length field. The
  first argument is the input from \<open>pos\<close> on, the second the value read so far; the
  result is the value and the input left.
\<close>

fun varField :: "string \<Rightarrow> string \<Rightarrow> string \<times> string" where
  "varField [] val = (val, [])"
| "varField (c # cs) val =
     (if c = CHR ''|'' \<or> c = CHR 0x1D then (val, cs)
      else if isKnownAI (c # cs) \<and> val \<noteq> [] then (val, c # cs)
      else varField cs (val @ [c]))"

text \<open>
  The outer loop: the input from \<open>pos\<close> on and the result built so far.
\<close>

function convertLoop :: "string \<Rightarrow> string \<Rightarrow> string" where
  "convertLoop rest result =
     (if rest = [] then result
      else
        (case lookupAI rest of
           None \<Rightarrow> convertLoop (tl rest) result
         | Some (ai, len) \<Rightarrow>
             (let rest1 = drop (length ai) rest
              in if len > 0
                 then convertLoop (drop (nat len) rest1)
                        (result @ ''('' @ ai @ '')'' @ take (nat len) rest1)
                 else convertLoop (snd (varField rest1 []))
                        (result @ ''('' @ ai @ '')'' @ fst (varField rest1 [])))))"
  by pat_completeness auto
termination
proof (relation "measure (\<lambda>(rest, result). length rest)")
  have vf: "length (snd (varField r v)) \<le> length r" for r v
    by (induction r v rule: varField.induct) auto
  have ai: "lookupAI rest = Some (a, l) \<Longrightarrow> rest \<noteq> [] \<Longrightarrow> a \<noteq> []" for rest a l
    by (auto simp: lookupAI_def split: option.splits)
  show "wf (measure (\<lambda>(rest, result). length rest))"
    by simp
  show "((tl rest, result), (rest, result)) \<in> measure (\<lambda>(rest, result). length rest)"
    if "rest \<noteq> []" for rest result :: string
    using that by (cases rest) auto
  show "((drop (nat len) rest1, result @ ''('' @ a @ '')'' @ take (nat len) rest1), (rest, result))
          \<in> measure (\<lambda>(rest, result). length rest)"
    if "rest \<noteq> []" "lookupAI rest = Some x" "(a, len) = x" "rest1 = drop (length a) rest"
    for rest result x a len rest1
    using that ai [of rest a len] by (cases rest; cases a) auto
  show "((snd (varField rest1 []), result @ ''('' @ a @ '')'' @ fst (varField rest1 [])), (rest, result))
          \<in> measure (\<lambda>(rest, result). length rest)"
    if "rest \<noteq> []" "lookupAI rest = Some x" "(a, len) = x" "rest1 = drop (length a) rest"
    for rest result x a len rest1
  proof -
    have "a \<noteq> []" using that ai [of rest a len] by auto
    then have "length rest1 < length rest" using that by (cases rest; cases a) auto
    with vf [of rest1 "[]"] show ?thesis by simp
  qed
qed

declare convertLoop.simps [simp del]

definition convertToParenthesized :: "string \<Rightarrow> string" where
  "convertToParenthesized code =
     (let result = convertLoop code [] in if result = [] then code else result)"

definition parseExpiryDate :: "js_env \<Rightarrow> string \<Rightarrow> js_error + expiry_parts" where
  "parseExpiryDate env yymmdd =
     (case (parseInt (''20'' @ substring yymmdd 0 2),
            parseInt (substring yymmdd 2 4),
            parseInt (substring yymmdd 4 6)) of
        (Some year, Some month, Some day0) \<Rightarrow>
          (case (if day0 = 0 then getDate env (newDateLocal env (int year) (int month) 0)
                 else Some (int day0)) of
             None \<Rightarrow> Inl RangeError
           | Some day \<Rightarrow>
               (case toISODate (newDateLocal env (int year) (int month - 1) day) of
                  Inl e \<Rightarrow> Inl e
                | Inr isoDate \<Rightarrow>
                    Inr \<lparr>iso = isoDate,
                         ddmmyy = padStart 2 CHR ''0'' (intToString day)
                                  @ padStart 2 CHR ''0'' (natToString month)
                                  @ substring yymmdd 0 2,
                         formatted = padStart 2 CHR ''0'' (intToString day) @ ''/''
                                  @ padStart 2 CHR ''0'' (natToString month) @ ''/''
                                  @ natToString year\<rparr>))
      | _ \<Rightarrow> Inl RangeError)"

definition ceilDiv :: "int \<Rightarrow> int \<Rightarrow> int" where
  \<comment> \<open>\<open>Math.ceil(a / b)\<close> for integers \<open>a\<close> and \<open>b > 0\<close>\<close>
  "ceilDiv a b = - ((- a) div b)"

definition calculateExpiryStatus :: "js_env \<Rightarrow> string option \<Rightarrow> expiry_status" where
  "calculateExpiryStatus env isoDate =
     (case isoDate of
        None \<Rightarrow> Missing
      | Some s \<Rightarrow>
          if s = [] then Missing
          else
            (case (setHoursZero env (Some (now env)), setHoursZero env (dateParse s)) of
               (Some todayMs, Some expiryMs) \<Rightarrow>
                 (let diffDays = ceilDiv (expiryMs - todayMs) (1000 * 60 * 60 * 24)
                  in if diffDays < 0 then Expired
                     else if diffDays \<le> CONFIG_EXPIRY_SOON_DAYS then Soon
                     else Ok)
             | _ \<Rightarrow> Ok))"

definition isBatchChar :: "char \<Rightarrow> bool" where
  \<comment> \<open>the class \<open>[^\(|\x1d]\<close>\<close>
  "isBatchChar c = (c \<noteq> CHR ''('' \<and> c \<noteq> CHR ''|'' \<and> c \<noteq> CHR 0x1D)"

definition removePipes :: "string \<Rightarrow> string" where
  \<comment> \<open>\<open>s.replace(/\|/g, '')\<close>\<close>
  "removePipes s = filter (\<lambda>c. c \<noteq> CHR ''|'') s"

definition defaultResult :: "js_value \<Rightarrow> parsed_code" where
  "defaultResult r =
     \<lparr>valid = False, raw = r, gtin14 = [], gtin13 = [], expiry = None,
      expiryDDMMYY = [], expiryFormatted = [], expiryStatus = Missing,
      batch = [], serial = [], qty = Num 1, rms = []\<rparr>"

text \<open>
  The last part of \<open>parseGS1\<close>, from \<open>Extract GS1 Application Identifiers\<close> on: five
  independent extractions from the same string.
\<close>

definition extractFields :: "js_env \<Rightarrow> string \<Rightarrow> parsed_code \<Rightarrow> js_error + parsed_code" where
  "extractFields env code result =
     (let r1 = (case matchAfter ''(01)'' isDigit 12 (Some 14) code of
                  None \<Rightarrow> result
                | Some g \<Rightarrow>
                    result\<lparr>gtin14 := padStart 14 CHR ''0'' g,
                           gtin13 := dropFirstZero (padStart 14 CHR ''0'' g),
                           valid := True\<rparr>)
      in
        case (case matchAfter ''(17)'' isDigit 6 (Some 6) code of
                None \<Rightarrow> Inr r1
              | Some e \<Rightarrow>
                  (case parseExpiryDate env e of
                     Inl err \<Rightarrow> Inl err
                   | Inr parsed \<Rightarrow>
                       Inr (r1\<lparr>expiry := Some (iso parsed),
                               expiryDDMMYY := ddmmyy parsed,
                               expiryFormatted := formatted parsed,
                               expiryStatus := calculateExpiryStatus env (Some (iso parsed))\<rparr>))) of
          Inl err \<Rightarrow> Inl err
        | Inr r2 \<Rightarrow>
            (let r3 = (case matchAfter ''(10)'' isBatchChar 1 None code of
                         None \<Rightarrow> r2
                       | Some b \<Rightarrow> r2\<lparr>batch := trim (removePipes b)\<rparr>);
                 r4 = (case matchAfter ''(21)'' isBatchChar 1 None code of
                         None \<Rightarrow> r3
                       | Some b \<Rightarrow> r3\<lparr>serial := trim (removePipes b)\<rparr>);
                 r5 = (case matchAfter ''(30)'' isDigit 1 None code of
                         None \<Rightarrow> r4
                       | Some q \<Rightarrow>
                           r4\<lparr>qty := (case parseInt q of
                                         None \<Rightarrow> Num 1
                                       | Some v \<Rightarrow> if v = 0 then Num 1 else toNumber v)\<rparr>)
             in Inr r5))"

text \<open>
  The middle part of \<open>parseGS1\<close>: the branch for short internal codes and the conversion
  of a raw string to the parenthesized format.
\<close>

definition decodeFrom :: "js_env \<Rightarrow> string \<Rightarrow> parsed_code \<Rightarrow> js_error + parsed_code" where
  "decodeFrom env code result =
     (if testDigits 5 7 code
      then Inr (result\<lparr>gtin14 := code, gtin13 := code, valid := True\<rparr>)
      else
        let code' = (if \<not> includesChar code CHR ''('' \<and> testTwoDigitPrefix code
                     then convertToParenthesized code else code)
        in extractFields env code' result)"

definition parseGS1 :: "js_env \<Rightarrow> js_value \<Rightarrow> js_error + parsed_code" where
  "parseGS1 env r =
     (let result = defaultResult r
      in case r of
           NonString \<Rightarrow> Inr result
         | JSString s \<Rightarrow>
             if s = [] then Inr result
             else
               let code = replaceGS (trim s)
               in if testDigits 5 21 code \<and> \<not> includesChar code CHR ''(''
                  then
                    (let result1 =
                           result\<lparr>gtin14 := padStart 14 CHR ''0'' code,
                                  gtin13 := (if length code \<le> 13 then code else substring code 0 13),
                                  valid := True\<rparr>
                     in if startsWith code ''01'' \<and> length code \<ge> 16
                        then decodeFrom env (convertToParenthesized code) result1
                        else Inr result1)
                  else decodeFrom env code result)"

section \<open>Product matching against the local master index\<close>

datatype match_type = EXACT | LAST8 | AMBIG | API | NONE

record match_result =
  name :: string
  type :: match_type

text \<open>
  An entry of a last-8 bucket is the object \<open>{ barcode: digits, name }\<close>, modelled as
  the pair of its two fields.
\<close>

type_synonym bucket_entry = "string \<times> string"

definition entry_barcode :: "bucket_entry \<Rightarrow> string" where
  "entry_barcode e = fst e"

definition entry_name :: "bucket_entry \<Rightarrow> string" where
  "entry_name e = snd e"

text \<open>
  \<open>State.masterIndex\<close>: two \<open>Map\<close> objects, each a partial function on its keys.
\<close>

record master_index =
  exact :: "string \<rightharpoonup> string"
  last8 :: "string \<rightharpoonup> bucket_entry list"

definition orEmpty :: "string option \<Rightarrow> string" where
  \<comment> \<open>\<open>(g || '')\<close>: \<open>None\<close> stands for \<open>null\<close> and \<open>undefined\<close>\<close>
  "orEmpty g = (case g of None \<Rightarrow> [] | Some s \<Rightarrow> s)"

text \<open>
  Step 5 of the matcher: \<open>for (let pad = digits14.length; pad <= 14; pad++)\<close>, which
  returns the name stored under the first padded form found in the exact table.
\<close>

function padLoop :: "(string \<rightharpoonup> string) \<Rightarrow> string \<Rightarrow> nat \<Rightarrow> string option" where
  "padLoop ex digits14 pad =
     (if pad \<le> 14 then
        (case ex (padStart pad CHR ''0'' digits14) of
           Some n \<Rightarrow> Some n
         | None \<Rightarrow> padLoop ex digits14 (pad + 1))
      else None)"
  by pat_completeness auto
termination
  by (relation "measure (\<lambda>(ex, d, pad). 15 - pad)") auto

declare padLoop.simps [simp del]

definition last8Step :: "master_index \<Rightarrow> string \<Rightarrow> match_result option" where
  \<comment> \<open>step 4: the bucket of the last eight digits; \<open>None\<close> when the code falls through\<close>
  "last8Step idx digits14 =
     (if length digits14 \<ge> 8 then
        (case last8 idx (sliceLast 8 digits14) of
           None \<Rightarrow> None
         | Some matches \<Rightarrow>
             (case matches of
                [] \<Rightarrow> None
              | [m] \<Rightarrow> Some \<lparr>name = entry_name m, type = LAST8\<rparr>
              | m # _ # _ \<Rightarrow> Some \<lparr>name = entry_name m, type = AMBIG\<rparr>))
      else None)"

definition padStep :: "master_index \<Rightarrow> string \<Rightarrow> match_result" where
  \<comment> \<open>step 5 and the final \<open>return { name: '', type: 'NONE' }\<close>\<close>
  "padStep idx digits14 =
     (if length digits14 \<ge> 5 \<and> length digits14 \<le> 11 then
        (case padLoop (exact idx) digits14 (length digits14) of
           Some n \<Rightarrow> \<lparr>name = n, type = EXACT\<rparr>
         | None \<Rightarrow> \<lparr>name = [], type = NONE\<rparr>)
      else \<lparr>name = [], type = NONE\<rparr>)"

definition matchProduct :: "master_index \<Rightarrow> string option \<Rightarrow> string option \<Rightarrow> match_result" where
  "matchProduct idx g14 g13 =
     (let digits14 = stripNonDigits (orEmpty g14);
          digits13 = stripNonDigits (orEmpty g13)
      in
        case (if digits14 \<noteq> [] then exact idx digits14 else None) of
          Some n \<Rightarrow> \<lparr>name = n, type = EXACT\<rparr>
        | None \<Rightarrow>
        (case (if digits13 \<noteq> [] then exact idx digits13 else None) of
          Some n \<Rightarrow> \<lparr>name = n, type = EXACT\<rparr>
        | None \<Rightarrow>
        (case exact idx (padStart 14 CHR ''0'' digits14) of
          Some n \<Rightarrow> \<lparr>name = n, type = EXACT\<rparr>
        | None \<Rightarrow>
        (let stripped = stripLeadingZeros digits14 in
         case (if stripped \<noteq> [] then exact idx stripped else None) of
          Some n \<Rightarrow> \<lparr>name = n, type = EXACT\<rparr>
        | None \<Rightarrow>
        (case last8Step idx digits14 of
          Some r \<Rightarrow> r
        | None \<Rightarrow> padStep idx digits14)))))"

text \<open>
  \<open>buildMasterIndex\<close>: \<open>State.masterData\<close> is a \<open>Map\<close> from barcode to name, iterated by
  \<open>forEach\<close> in insertion order; it is modelled as the list of its \<open>(barcode, name)\<close>
  entries in that order. \<open>indexEntry\<close> is the body of the callback.
\<close>

definition pushBucket ::
  "(string \<rightharpoonup> bucket_entry list) \<Rightarrow> string \<Rightarrow> bucket_entry \<Rightarrow> (string \<rightharpoonup> bucket_entry list)" where
  \<comment> \<open>\<open>if (!last8.has(key)) last8.set(key, []); last8.get(key).push(e)\<close>\<close>
  "pushBucket l8 key e = l8(key \<mapsto> (case l8 key of None \<Rightarrow> [] | Some b \<Rightarrow> b) @ [e])"

definition indexEntry :: "master_index \<Rightarrow> string \<times> string \<Rightarrow> master_index" where
  "indexEntry idx entry =
     (let barcode = fst entry; nm = snd entry;
          digits = stripNonDigits barcode
      in
        if digits = [] then idx
        else
          let ex1 = ((exact idx)(digits \<mapsto> nm))(barcode \<mapsto> nm);
              idx2 =
                (if length digits \<in> {8, 12, 13, 14} then
                   (let g14 = padStart 14 CHR ''0'' digits;
                        g13 = dropFirstZero g14;
                        g12 = dropFirstZero g13
                    in \<lparr>exact = ((ex1(g14 \<mapsto> nm))(g13 \<mapsto> nm))(g12 \<mapsto> nm),
                        last8 = pushBucket (last8 idx) (sliceLast 8 g14) (digits, nm)\<rparr>)
                 else if length digits \<ge> 8 then
                   \<lparr>exact = ex1,
                    last8 = pushBucket (last8 idx) (sliceLast 8 digits) (digits, nm)\<rparr>
                 else \<lparr>exact = ex1, last8 = last8 idx\<rparr>);
              stripped = stripLeadingZeros digits
          in
            if stripped \<noteq> [] \<and> stripped \<noteq> digits
            then idx2\<lparr>exact := (exact idx2)(stripped \<mapsto> nm)\<rparr>
            else idx2)"

definition buildMasterIndex :: "(string \<times> string) list \<Rightarrow> master_index" where
  "buildMasterIndex masterData =
     foldl indexEntry \<lparr>exact = Map.empty, last8 = Map.empty\<rparr> masterData"

section \<open>Reference definitions for the specification\<close>

text \<open>
  The order of the exact lookups as a list: the digits of the first argument, the digits
  of the second, the first padded to fourteen, the first without leading zeros; an empty
  key is left out where the matcher skips it. \<open>firstHit\<close> returns the value of the
  first key in the list that the table holds.
\<close>

definition exactCandidates :: "string \<Rightarrow> string \<Rightarrow> string list" where
  "exactCandidates digits14 digits13 =
     (if digits14 \<noteq> [] then [digits14] else []) @
     (if digits13 \<noteq> [] then [digits13] else []) @
     [padStart 14 CHR ''0'' digits14] @
     (if stripLeadingZeros digits14 \<noteq> [] then [stripLeadingZeros digits14] else [])"

fun firstHit :: "(string \<rightharpoonup> string) \<Rightarrow> string list \<Rightarrow> string option" where
  "firstHit ex [] = None"
| "firstHit ex (k # ks) = (case ex k of Some n \<Rightarrow> Some n | None \<Rightarrow> firstHit ex ks)"

text \<open>
  The bucket of a key as the specification describes it: the catalog entries, in
  insertion order, whose digit string has at least eight digits and ends with the key.
\<close>

definition catalogBucket :: "(string \<times> string) list \<Rightarrow> string \<Rightarrow> bucket_entry list" where
  "catalogBucket masterData key =
     map (\<lambda>e. (stripNonDigits (fst e), snd e))
       (filter (\<lambda>e. length (stripNonDigits (fst e)) \<ge> 8
                    \<and> sliceLast 8 (stripNonDigits (fst e)) = key) masterData)"

text \<open>
  The invariant of a decoded record: it is valid exactly when it holds an identifier, and
  the two identifier fields are filled together.
\<close>

definition identifiersConsistent :: "parsed_code \<Rightarrow> bool" where
  "identifiersConsistent r \<longleftrightarrow>
     (valid r \<longleftrightarrow> gtin14 r \<noteq> []) \<and> (valid r \<longleftrightarrow> gtin13 r \<noteq> [])"

text \<open>
  The calendar as the specification names it: the number of days of a month (1 to 12) of
  a year, the last day of the month a month number denotes when months out of range
  carry over into the neighbouring years, and the two day digits of a decoded expiry,
  where \<open>00\<close> stands for that last day.
\<close>

definition daysInMonth :: "int \<Rightarrow> int \<Rightarrow> int" where
  "daysInMonth year month =
     (if month = 2 then (if isLeapYear year then 29 else 28)
      else if month \<in> {4, 6, 9, 11} then 30 else 31)"

definition lastDayOfMonth :: "int \<Rightarrow> int \<Rightarrow> int" where
  "lastDayOfMonth year month =
     daysInMonth (year + (month - 1) div 12) ((month - 1) mod 12 + 1)"

definition dayDigits :: "int \<Rightarrow> int \<Rightarrow> string \<Rightarrow> string" where
  "dayDigits year month dd =
     (if dd = ''00'' then natToString (nat (lastDayOfMonth year month)) else dd)"

section \<open>Properties of the product matcher\<close>


lemma matchProduct_cascade:
  "matchProduct idx g14 g13 =
     (case firstHit (exact idx)
             (exactCandidates (stripNonDigits (orEmpty g14)) (stripNonDigits (orEmpty g13))) of
        Some n \<Rightarrow> \<lparr>name = n, type = EXACT\<rparr>
      | None \<Rightarrow>
          (case last8Step idx (stripNonDigits (orEmpty g14)) of
             Some r \<Rightarrow> r
           | None \<Rightarrow> padStep idx (stripNonDigits (orEmpty g14))))"
  by (simp add: matchProduct_def exactCandidates_def Let_def split: option.splits)

lemma last8Step_type: "last8Step idx d = Some r \<Longrightarrow> type r = LAST8 \<or> type r = AMBIG"
  by (auto simp: last8Step_def split: if_splits option.splits list.splits)

lemma padStep_type: "type (padStep idx d) = EXACT \<or> type (padStep idx d) = NONE"
  by (simp add: padStep_def split: option.splits)

lemma sliceLast_padStart:
  "n \<le> length s \<Longrightarrow> sliceLast n (padStart m c s) = sliceLast n s"
  by (simp add: sliceLast_def padStart_def)

lemma last8_indexEntry:
  "last8 (indexEntry idx e) k =
     (if length (stripNonDigits (fst e)) \<ge> 8 \<and> sliceLast 8 (stripNonDigits (fst e)) = k
      then Some ((case last8 idx k of None \<Rightarrow> [] | Some b \<Rightarrow> b)
                 @ [(stripNonDigits (fst e), snd e)])
      else last8 idx k)"
  by (auto simp: indexEntry_def Let_def pushBucket_def sliceLast_padStart)

lemma last8_foldl_indexEntry:
  "last8 (foldl indexEntry idx cat) k =
     (if catalogBucket cat k = [] then last8 idx k
      else Some ((case last8 idx k of None \<Rightarrow> [] | Some b \<Rightarrow> b) @ catalogBucket cat k))"
proof (induction cat arbitrary: idx)
  case Nil
  show ?case by (simp add: catalogBucket_def)
next
  case (Cons e cat)
  show ?case
    by (simp add: Cons.IH last8_indexEntry catalogBucket_def)
qed

lemma last8_buildMasterIndex:
  "last8 (buildMasterIndex cat) k =
     (if catalogBucket cat k = [] then None else Some (catalogBucket cat k))"
  by (simp add: buildMasterIndex_def last8_foldl_indexEntry)

lemma replicate_numeral_Cons:
  "replicate (numeral k) x = x # replicate (pred_numeral k) x"
  by (simp add: numeral_eq_Suc)

lemmas index_eval =
  replicate_numeral_Cons buildMasterIndex_def indexEntry_def stripNonDigits_def isDigit_def padStart_def
  orEmpty_def dropFirstZero_def startsWith_def sliceLast_def stripLeadingZeros_def
  pushBucket_def Let_def



text \<open>
  C2. When the digits of \<open>gtin14\<close> number at least eight and every exact lookup misses,
  the bucket of the last eight digits decides: an absent or empty bucket falls through
  to the padding step, a bucket of one entry gives \<open>LAST8\<close> with that entry's name, a
  longer bucket gives \<open>AMBIG\<close> with the name of its first entry. In an index built by
  \<open>buildMasterIndex\<close> the bucket lists its catalog entries in insertion order, so the
  first entry is the one inserted first.
\<close>

theorem matchProduct_last8_bucket:
  assumes "length (stripNonDigits (orEmpty g14)) \<ge> 8"
    and "firstHit (exact idx)
           (exactCandidates (stripNonDigits (orEmpty g14)) (stripNonDigits (orEmpty g13))) = None"
  shows "((last8 idx (sliceLast 8 (stripNonDigits (orEmpty g14))) = None
           \<or> last8 idx (sliceLast 8 (stripNonDigits (orEmpty g14))) = Some [])
          \<longrightarrow> matchProduct idx g14 g13 = padStep idx (stripNonDigits (orEmpty g14)))
       \<and> (\<forall>e. last8 idx (sliceLast 8 (stripNonDigits (orEmpty g14))) = Some [e]
          \<longrightarrow> matchProduct idx g14 g13 = \<lparr>name = entry_name e, type = LAST8\<rparr>)
       \<and> (\<forall>e e' es. last8 idx (sliceLast 8 (stripNonDigits (orEmpty g14))) = Some (e # e' # es)
          \<longrightarrow> matchProduct idx g14 g13 = \<lparr>name = entry_name e, type = AMBIG\<rparr>)
       \<and> (\<forall>masterData key. last8 (buildMasterIndex masterData) key =
            (if catalogBucket masterData key = [] then None
             else Some (catalogBucket masterData key)))"
  using assms
  by (auto simp: matchProduct_cascade last8Step_def last8_buildMasterIndex)

theorem matchProduct_last8_bucket_witness:
  "length (stripNonDigits (orEmpty (Some ''30000012345678''))) \<ge> 8
   \<and> firstHit (exact (buildMasterIndex
          [(''10000012345678'', ''Aspirin''), (''20000012345678'', ''Ibuprofen'')]))
        (exactCandidates (stripNonDigits (orEmpty (Some ''30000012345678'')))
           (stripNonDigits (orEmpty None))) = None
   \<and> last8 (buildMasterIndex
          [(''10000012345678'', ''Aspirin''), (''20000012345678'', ''Ibuprofen'')])
        ''12345678''
      = Some [(''10000012345678'', ''Aspirin''), (''20000012345678'', ''Ibuprofen'')]
   \<and> matchProduct (buildMasterIndex
          [(''10000012345678'', ''Aspirin''), (''20000012345678'', ''Ibuprofen'')])
        (Some ''30000012345678'') None
      = \<lparr>name = ''Aspirin'', type = AMBIG\<rparr>"
proof -
  let ?idx = "buildMasterIndex
          [(''10000012345678'', ''Aspirin''), (''20000012345678'', ''Ibuprofen'')]"
  have len: "length (stripNonDigits (orEmpty (Some ''30000012345678''))) \<ge> 8"
    by (simp add: stripNonDigits_def isDigit_def orEmpty_def)
  have miss: "firstHit (exact ?idx)
        (exactCandidates (stripNonDigits (orEmpty (Some ''30000012345678'')))
           (stripNonDigits (orEmpty None))) = None"
    by (simp add: exactCandidates_def index_eval)
  have bucket: "last8 ?idx (sliceLast 8 (stripNonDigits (orEmpty (Some ''30000012345678''))))
      = Some [(''10000012345678'', ''Aspirin''), (''20000012345678'', ''Ibuprofen'')]"
    by (simp add: index_eval)
  have key: "sliceLast 8 (stripNonDigits (orEmpty (Some ''30000012345678''))) = ''12345678''"
    by (simp add: index_eval)
  from matchProduct_last8_bucket [OF len miss] bucket
  have "matchProduct ?idx (Some ''30000012345678'') None
      = \<lparr>name = entry_name (''10000012345678'', ''Aspirin''), type = AMBIG\<rparr>"
    by blast
  with len miss bucket key show ?thesis
    by (simp add: entry_name_def)
qed


lemma matchProduct_empty_digits_NONE:
  assumes "stripNonDigits (orEmpty g14) = []" and "stripNonDigits (orEmpty g13) = []"
    and "exact idx ''00000000000000'' = None"
  shows "matchProduct idx g14 g13 = \<lparr>name = [], type = NONE\<rparr>"
  using assms
  by (simp add: matchProduct_def last8Step_def padStep_def padStart_def stripLeadingZeros_def
      replicate_numeral_Cons)

section \<open>Properties of the decoder\<close>

subsection \<open>Digits and strings\<close>

lemma digitVal_less: "isDigit c \<Longrightarrow> digitVal c < 10"
  by (auto simp: isDigit_def digitVal_def)

lemma digit_nth: "isDigit c \<Longrightarrow> ''0123456789'' ! digitVal c = c"
  by (auto simp: isDigit_def digitVal_def)

lemma natToString_digit: "isDigit c \<Longrightarrow> natToString (digitVal c) = [c]"
  by (subst natToString.simps) (simp only: digitVal_less digit_nth if_True)

lemma natToString_snoc:
  assumes "isDigit c" "0 < n"
  shows "natToString (10 * n + digitVal c) = natToString n @ [c]"
proof -
  from assms have "\<not> 10 * n + digitVal c < 10" by simp
  moreover have "(10 * n + digitVal c) div 10 = n" "(10 * n + digitVal c) mod 10 = digitVal c"
    using digitVal_less [OF assms(1)] by simp_all
  ultimately show ?thesis
    by (subst natToString.simps) (simp only: if_False digit_nth [OF assms(1)])
qed

lemma decimalValue_snoc: "decimalValue (s @ [c]) = 10 * decimalValue s + digitVal c"
  by (simp add: decimalValue_def)

lemma decimalValue_single: "decimalValue [c] = digitVal c"
  by (simp add: decimalValue_def)

lemma natToString_two:
  assumes "isDigit a" "isDigit b"
  shows "padStart 2 CHR ''0'' (natToString (decimalValue [a, b])) = [a, b]"
proof (cases "digitVal a = 0")
  case True
  with assms have a: "a = CHR ''0''" by (auto simp: isDigit_def digitVal_def)
  have "decimalValue [a, b] = digitVal b"
    using decimalValue_snoc [of "[a]" b] True by (simp add: decimalValue_single)
  then show ?thesis
    by (simp add: natToString_digit assms padStart_def a)
next
  case False
  have "decimalValue [a, b] = 10 * digitVal a + digitVal b"
    using decimalValue_snoc [of "[a]" b] by (simp add: decimalValue_single)
  then have "natToString (decimalValue [a, b]) = [a, b]"
    using False assms by (simp add: natToString_snoc natToString_digit)
  then show ?thesis by (simp add: padStart_def)
qed

lemma natToString_year:
  assumes "isDigit a" "isDigit b"
  shows "natToString (decimalValue (''20'' @ [a, b])) = ''20'' @ [a, b]"
proof -
  have twenty: "decimalValue ''20'' = 20" "natToString 20 = ''20''"
    by (simp_all add: decimalValue_def digitVal_def natToString.simps)
  have "decimalValue (''20'' @ [a, b]) = 10 * (10 * 20 + digitVal a) + digitVal b"
    using decimalValue_snoc [of "''20'' @ [a]" b] decimalValue_snoc [of "''20''" a] twenty
    by simp
  moreover have "natToString (10 * 20 + digitVal a) = natToString 20 @ [a]"
    by (rule natToString_snoc) (use assms in simp_all)
  moreover have "natToString (10 * (10 * 20 + digitVal a) + digitVal b)
      = natToString (10 * 20 + digitVal a) @ [b]"
    by (rule natToString_snoc) (use assms in simp_all)
  ultimately show ?thesis using twenty by simp
qed

lemma isDigit_not_space: "isDigit c \<Longrightarrow> \<not> isSpace c"
  by (auto simp: isDigit_def isSpace_def)

lemma isDigit_not_special:
  "isDigit c \<Longrightarrow> c \<noteq> CHR ''('' \<and> c \<noteq> CHR 0x1D \<and> c \<noteq> CHR ''|''"
  by (auto simp: isDigit_def)

lemma trim_id:
  assumes "s \<noteq> []" "\<not> isSpace (hd s)" "\<not> isSpace (last s)"
  shows "trim s = s"
proof -
  from assms have 1: "dropWhile isSpace s = s"
    by (cases s) simp_all
  from assms have "dropWhile isSpace (rev s) = rev s"
    by (cases "rev s") (simp_all add: last_rev [symmetric] hd_rev)
  with 1 show ?thesis by (simp add: trim_def)
qed

lemma replaceGS_id: "CHR 0x1D \<notin> set s \<Longrightarrow> replaceGS s = s"
  by (induction s) (auto simp: replaceGS_def)

lemma testDigits_normal:
  assumes "testDigits lo hi s" "0 < lo"
  shows "replaceGS (trim s) = s"
proof -
  from assms have ne: "s \<noteq> []" and dig: "\<forall>c\<in>set s. isDigit c"
    by (auto simp: testDigits_def)
  then have "isDigit (hd s)" "isDigit (last s)" by simp_all
  with ne have "trim s = s"
    by (simp add: trim_id isDigit_not_space)
  moreover from dig have "CHR 0x1D \<notin> set s"
    using isDigit_not_special by blast
  ultimately show ?thesis by (simp add: replaceGS_id)
qed

lemma matchAfter_no_paren:
  "CHR ''('' \<notin> set s \<Longrightarrow> matchAfter (CHR ''('' # t) cls lo hi s = None"
  by (induction s) (auto simp: startsWith_def Let_def)

lemma padStart_length: "length (padStart n c s) = max n (length s)"
  by (simp add: padStart_def)

lemma dropFirstZero_length: "length (dropFirstZero s) \<ge> length s - 1"
  by (simp add: dropFirstZero_def)

subsection \<open>Plain numeric codes\<close>

lemma parseGS1_bare_numeric:
  assumes "testDigits 5 21 s" "\<not> (startsWith s ''01'' \<and> length s \<ge> 16)"
  shows "parseGS1 env (JSString s) =
     Inr ((defaultResult (JSString s))
            \<lparr>gtin14 := padStart 14 CHR ''0'' s,
             gtin13 := (if length s \<le> 13 then s else substring s 0 13),
             valid := True\<rparr>)"
proof -
  from assms(1) have norm: "replaceGS (trim s) = s" by (rule testDigits_normal) simp
  from assms(1) have "s \<noteq> []" "\<not> includesChar s CHR ''(''"
    using isDigit_not_special by (auto simp: testDigits_def includesChar_def)
  with assms norm show ?thesis
    by (auto simp: parseGS1_def Let_def)
qed

lemma parseGS1_short_code:
  assumes "testDigits 5 7 s"
  shows "parseGS1 env (JSString s) =
     Inr ((defaultResult (JSString s))
            \<lparr>gtin14 := padStart 14 CHR ''0'' s, gtin13 := s, valid := True\<rparr>)"
proof -
  from assms have "testDigits 5 21 s" "length s \<le> 7" by (simp_all add: testDigits_def)
  then show ?thesis by (simp add: parseGS1_bare_numeric)
qed

text \<open>
  C7. A code of five to seven digits is taken by the first branch of \<open>parseGS1\<close>, the
  one for plain numeric codes of 5 to 21 digits, which returns at once: \<open>gtin13\<close> is the
  code and \<open>valid\<close> is set, but \<open>gtin14\<close> is the code padded with zeros to fourteen
  digits. The later branch for short internal codes, which would store the code itself
  in \<open>gtin14\<close>, is never reached. For the input \<open>12345\<close>:
\<close>

theorem parseGS1_short_code_is_padded:
  "parseGS1 env (JSString ''12345'') =
     Inr ((defaultResult (JSString ''12345''))
            \<lparr>gtin14 := ''00000000012345'', gtin13 := ''12345'', valid := True\<rparr>)"
  by (simp add: parseGS1_short_code testDigits_def isDigit_def padStart_def
      replicate_numeral_Cons)

subsection \<open>The identifier invariant\<close>

lemma extractFields_ids:
  assumes "extractFields env code res = Inr r"
  shows "(case matchAfter ''(01)'' isDigit 12 (Some 14) code of
            None \<Rightarrow> gtin14 r = gtin14 res \<and> gtin13 r = gtin13 res \<and> valid r = valid res
          | Some g \<Rightarrow> gtin14 r = padStart 14 CHR ''0'' g
                     \<and> gtin13 r = dropFirstZero (padStart 14 CHR ''0'' g) \<and> valid r)"
  using assms
  by (auto simp: extractFields_def Let_def split: option.splits sum.splits)

lemma consistent_extractFields:
  assumes "identifiersConsistent res" "extractFields env code res = Inr r"
  shows "identifiersConsistent r"
proof (cases "matchAfter ''(01)'' isDigit 12 (Some 14) code")
  case None
  with extractFields_ids [OF assms(2)] assms(1) show ?thesis
    by (auto simp: identifiersConsistent_def)
next
  case (Some g)
  have "length (padStart 14 CHR ''0'' g) \<ge> 14" by (simp add: padStart_length)
  moreover from this have "length (dropFirstZero (padStart 14 CHR ''0'' g)) \<ge> 13"
    using dropFirstZero_length [of "padStart 14 CHR ''0'' g"] by linarith
  ultimately have "padStart 14 CHR ''0'' g \<noteq> []" "dropFirstZero (padStart 14 CHR ''0'' g) \<noteq> []"
    by auto
  with extractFields_ids [OF assms(2)] Some show ?thesis
    by (simp add: identifiersConsistent_def)
qed

lemma consistent_decodeFrom:
  assumes "identifiersConsistent res" "decodeFrom env code res = Inr r"
  shows "identifiersConsistent r"
proof (cases "testDigits 5 7 code")
  case True
  then have "code \<noteq> []" by (auto simp: testDigits_def)
  with True assms(2) show ?thesis by (auto simp: decodeFrom_def identifiersConsistent_def)
next
  case False
  with assms show ?thesis
    by (auto simp: decodeFrom_def Let_def intro: consistent_extractFields split: if_splits)
qed

lemma consistent_parseGS1:
  assumes "parseGS1 env v = Inr r"
  shows "identifiersConsistent r"
proof (cases v)
  case NonString
  with assms show ?thesis
    by (auto simp: parseGS1_def identifiersConsistent_def defaultResult_def)
next
  case (JSString s)
  let ?code = "replaceGS (trim s)"
  let ?res1 = "(defaultResult v)\<lparr>gtin14 := padStart 14 CHR ''0'' ?code,
     gtin13 := (if length ?code \<le> 13 then ?code else substring ?code 0 13), valid := True\<rparr>"
  have d: "identifiersConsistent (defaultResult v)"
    by (simp add: identifiersConsistent_def defaultResult_def)
  have r1: "identifiersConsistent ?res1" if "testDigits 5 21 ?code"
  proof -
    from that have "5 \<le> length ?code" by (simp add: testDigits_def)
    then have "?code \<noteq> []" "substring ?code 0 13 \<noteq> []" "padStart 14 CHR ''0'' ?code \<noteq> []"
      by (auto simp: substring_def padStart_def)
    then show ?thesis by (simp add: identifiersConsistent_def)
  qed
  from assms JSString d r1 show ?thesis
    by (auto simp: parseGS1_def Let_def intro: consistent_decodeFrom split: if_splits)
qed

text \<open>
  C3. Every record that \<open>parseGS1\<close> returns is valid exactly when an identifier field was
  extracted (\<open>gtin14\<close> or \<open>gtin13\<close> is non-empty; the two are always filled together),
  and a valid record has a non-empty \<open>gtin14\<close>.
\<close>

theorem parseGS1_valid_invariant:
  assumes "parseGS1 env v = Inr r"
  shows "(valid r \<longleftrightarrow> gtin14 r \<noteq> [] \<or> gtin13 r \<noteq> [])
       \<and> (valid r \<longrightarrow> gtin14 r \<noteq> [])
       \<and> identifiersConsistent r"
  using consistent_parseGS1 [OF assms]
  by (auto simp: identifiersConsistent_def)

theorem parseGS1_valid_invariant_witness:
  "parseGS1 \<lparr>tzOffset = 0, now = 0\<rparr> (JSString ''5012345678900'')
     = Inr ((defaultResult (JSString ''5012345678900''))
              \<lparr>gtin14 := ''05012345678900'', gtin13 := ''5012345678900'', valid := True\<rparr>)
   \<and> valid ((defaultResult (JSString ''5012345678900''))
              \<lparr>gtin14 := ''05012345678900'', gtin13 := ''5012345678900'', valid := True\<rparr>)
   \<and> gtin14 ((defaultResult (JSString ''5012345678900''))
              \<lparr>gtin14 := ''05012345678900'', gtin13 := ''5012345678900'', valid := True\<rparr>) \<noteq> []"
proof -
  have run: "parseGS1 \<lparr>tzOffset = 0, now = 0\<rparr> (JSString ''5012345678900'')
     = Inr ((defaultResult (JSString ''5012345678900''))
              \<lparr>gtin14 := ''05012345678900'', gtin13 := ''5012345678900'', valid := True\<rparr>)"
    by (simp add: parseGS1_bare_numeric testDigits_def isDigit_def padStart_def startsWith_def)
  from parseGS1_valid_invariant [OF run] run show ?thesis
    by simp
qed

section \<open>Properties of the calendar\<close>

lemma div_succ:
  fixes x n :: int
  assumes "0 < n"
  shows "(x + 1) div n = x div n + (if (x + 1) mod n = 0 then 1 else 0)"
proof (cases "x mod n = n - 1")
  case True
  have "n * (x div n) + x mod n = x" by simp
  with True have "x + 1 = n * (x div n) + n" by linarith
  then have "x + 1 = n * (x div n + 1) + 0" by (simp add: distrib_left)
  then have "(x + 1) div n = x div n + 1" "(x + 1) mod n = 0"
    using assms by (metis add.right_neutral nonzero_mult_div_cancel_left less_irrefl,
                   metis add.right_neutral mod_mult_self1_is_0)
  then show ?thesis by simp
next
  case False
  have r: "0 \<le> x mod n" "x mod n < n" using assms by simp_all
  with False have r1: "0 \<le> x mod n + 1" "x mod n + 1 < n" by linarith+
  have "x + 1 = n * (x div n) + (x mod n + 1)"
    using mult_div_mod_eq [of n x] by simp
  with r1 have "(x + 1) div n = x div n" "(x + 1) mod n = x mod n + 1"
    by (metis int_div_pos_eq, metis int_mod_pos_eq)
  with r show ?thesis by simp
qed

lemma mod_shift: "(y - n * k) mod n = y mod (n::int)"
  by (metis diff_conv_add_uminus mod_mult_self2 mult_minus_right)

lemma dayFromYear_step:
  "dayFromYear (y + 1) = dayFromYear y + (if isLeapYear y then 366 else 365)"
proof -
  have a: "(y + 1 - 1969) div 4 = (y - 1969) div 4 + (if y mod 4 = 0 then 1 else 0)"
    using div_succ [of 4 "y - 1969"] mod_shift [of y 4 492] by (simp add: algebra_simps)
  have b: "(y + 1 - 1901) div 100 = (y - 1901) div 100 + (if y mod 100 = 0 then 1 else 0)"
    using div_succ [of 100 "y - 1901"] mod_shift [of y 100 19] by (simp add: algebra_simps)
  have c: "(y + 1 - 1601) div 400 = (y - 1601) div 400 + (if y mod 400 = 0 then 1 else 0)"
    using div_succ [of 400 "y - 1601"] mod_shift [of y 400 4] by (simp add: algebra_simps)
  have d: "y mod 400 = 0 \<Longrightarrow> y mod 100 = 0" "y mod 100 = 0 \<Longrightarrow> y mod 4 = 0"
    using dvd_trans [of 100 400 y] dvd_trans [of 4 100 y]
    by (simp_all add: dvd_eq_mod_eq_0 [symmetric])
  have "dayFromYear (y + 1) - dayFromYear y =
      365 + (if y mod 4 = 0 then 1 else 0) - (if y mod 100 = 0 then 1 else 0)
          + (if y mod 400 = 0 then 1 else 0)"
    unfolding dayFromYear_def a b c by (simp only: algebra_simps)
  also have "\<dots> = (if isLeapYear y then 366 else 365)"
  proof (cases "y mod 400 = 0")
    case True
    with d show ?thesis by (simp add: isLeapYear_def)
  next
    case n400: False
    show ?thesis
    proof (cases "y mod 100 = 0")
      case True
      with n400 d show ?thesis by (simp add: isLeapYear_def)
    next
      case False
      with n400 show ?thesis by (simp add: isLeapYear_def)
    qed
  qed
  finally show ?thesis by simp
qed

lemma dayFromYear_1970: "dayFromYear 1970 = 0"
  by (simp add: dayFromYear_def)

lemma start_pos: "0 \<le> j \<Longrightarrow> dayFromYear (1970 + j) \<le> 366 * j"
proof (induction j rule: int_ge_induct)
  case base
  show ?case by (simp add: dayFromYear_1970)
next
  case (step i)
  have "dayFromYear (1970 + (i + 1)) = dayFromYear (1970 + i + 1)" by (simp add: add.assoc)
  also have "\<dots> \<le> dayFromYear (1970 + i) + 366"
    by (subst dayFromYear_step) simp
  finally show ?case using step.IH by simp
qed

lemma start_neg: "j \<le> 0 \<Longrightarrow> dayFromYear (1970 + j) \<le> 365 * j"
proof (induction j rule: int_le_induct)
  case base
  show ?case by (simp add: dayFromYear_1970)
next
  case (step i)
  have "dayFromYear (1970 + (i - 1) + 1) \<ge> dayFromYear (1970 + (i - 1)) + 365"
    by (subst dayFromYear_step) simp
  then have "dayFromYear (1970 + (i - 1)) + 365 \<le> dayFromYear (1970 + i)"
    by (simp add: algebra_simps)
  with step.IH show ?case by simp
qed

lemma yearSearch_spec:
  "dayFromYear y \<le> day \<Longrightarrow>
     dayFromYear (yearSearch y day) \<le> day \<and> day < dayFromYear (yearSearch y day + 1)"
proof (induction y day rule: yearSearch.induct)
  case (1 y day)
  show ?case
  proof (cases "dayFromYear (y + 1) \<le> day")
    case True
    with "1.IH" show ?thesis by (subst (1 2) yearSearch.simps) simp
  next
    case False
    with "1.prems" show ?thesis by (subst (1 2) yearSearch.simps) simp
  qed
qed

lemma yearFromDay_spec:
  "dayFromYear (yearFromDay day) \<le> day \<and> day < dayFromYear (yearFromDay day + 1)"
proof -
  have "dayFromYear (if 0 \<le> day then 1970 + day div 366 else 1970 + day div 365 - 1) \<le> day"
  proof (cases "0 \<le> day")
    case True
    then have "0 \<le> day div 366" by simp
    from start_pos [OF this] have "dayFromYear (1970 + day div 366) \<le> 366 * (day div 366)" .
    also have "\<dots> \<le> day" by simp
    finally show ?thesis using True by simp
  next
    case False
    then have "day div 365 - 1 \<le> 0" by simp
    from start_neg [OF this]
    have "dayFromYear (1970 + (day div 365 - 1)) \<le> 365 * (day div 365 - 1)" .
    also have "\<dots> \<le> day"
    proof -
      have "0 \<le> day mod 365" by simp
      moreover have "365 * (day div 365 - 1) = 365 * (day div 365) - 365"
        by (simp add: right_diff_distrib)
      moreover have "365 * (day div 365) + day mod 365 = day" by simp
      ultimately show ?thesis by simp
    qed
    finally show ?thesis using False by (simp add: algebra_simps)
  qed
  then show ?thesis unfolding yearFromDay_def by (rule yearSearch_spec)
qed

lemma dayFromYear_mono: "y \<le> y' \<Longrightarrow> dayFromYear y \<le> dayFromYear y'"
proof (induction y' rule: int_ge_induct)
  case base
  show ?case by simp
next
  case (step i)
  have "dayFromYear i \<le> dayFromYear (i + 1)"
    by (subst dayFromYear_step) simp
  with step show ?case by simp
qed

lemma yearFromDay_unique:
  assumes "dayFromYear y \<le> day" "day < dayFromYear (y + 1)"
  shows "yearFromDay day = y"
proof (rule ccontr)
  assume ne: "yearFromDay day \<noteq> y"
  let ?z = "yearFromDay day"
  from yearFromDay_spec [of day] have z: "dayFromYear ?z \<le> day" "day < dayFromYear (?z + 1)"
    by simp_all
  from ne consider "?z + 1 \<le> y" | "y + 1 \<le> ?z" by linarith
  then show False
  proof cases
    case 1
    from dayFromYear_mono [OF this] z assms show False by simp
  next
    case 2
    from dayFromYear_mono [OF this] z assms show False by simp
  qed
qed

lemma dateFromDay_in_year:
  assumes "0 \<le> k" "k < (if isLeapYear y then 366 else 365)"
  shows "dateFromDay (dayFromYear y + k) = (y, monthDate (monthLengths y) 0 k)"
proof -
  have "yearFromDay (dayFromYear y + k) = y"
    by (rule yearFromDay_unique) (use assms in \<open>simp_all add: dayFromYear_step\<close>)
  then show ?thesis by (simp add: dateFromDay_def Let_def)
qed

lemma sum_list_take_pos:
  assumes "\<forall>l\<in>set ls. (0::int) < l" "0 < n" "ls \<noteq> []"
  shows "0 < sum_list (take n ls)"
proof -
  from assms obtain l ls' n' where "ls = l # ls'" "n = Suc n'"
    by (cases ls; cases n) auto
  moreover have "0 \<le> sum_list (take n' ls')"
    using assms(1) \<open>ls = l # ls'\<close> by (intro sum_list_nonneg) (auto dest!: in_set_takeD intro: less_imp_le)
  ultimately show ?thesis using assms(1) by auto
qed

lemma sum_list_take_le:
  assumes "\<forall>l\<in>set ls. (0::int) < l"
  shows "sum_list (take n ls) \<le> sum_list ls"
proof -
  have "sum_list ls = sum_list (take n ls) + sum_list (drop n ls)"
    by (metis append_take_drop_id sum_list_append)
  moreover have "0 \<le> sum_list (drop n ls)"
    using assms by (intro sum_list_nonneg) (auto dest!: in_set_dropD intro: less_imp_le)
  ultimately show ?thesis by simp
qed

lemma monthDate_end_of_month:
  assumes "\<forall>l\<in>set ls. 0 < l" "0 < n" "n \<le> length ls"
  shows "monthDate ls m (sum_list (take n ls) - 1) = (m + int n - 1, ls ! (n - 1))"
  using assms
proof (induction ls arbitrary: m n)
  case Nil
  then show ?case by simp
next
  case (Cons l ls)
  from Cons.prems obtain n' where n: "n = Suc n'" by (cases n) auto
  show ?case
  proof (cases "n' = 0")
    case True
    with n show ?thesis by simp
  next
    case False
    with Cons.prems n have pos: "0 < sum_list (take n' ls)"
      by (intro sum_list_take_pos) auto
    from Cons.prems n False
    have "monthDate ls (m + 1) (sum_list (take n' ls) - 1) = (m + 1 + int n' - 1, ls ! (n' - 1))"
      by (intro Cons.IH) auto
    with pos n False show ?thesis by (simp add: nth_Cons')
  qed
qed

lemma monthLengths_facts:
  "\<forall>l\<in>set (monthLengths y). 0 < l" "length (monthLengths y) = 12"
  "sum_list (monthLengths y) = (if isLeapYear y then 366 else 365)"
  by (simp_all add: monthLengths_def)

lemma monthLengths_nth:
  assumes "1 \<le> m" "m \<le> 12"
  shows "monthLengths y ! (nat m - 1) = daysInMonth y m"
proof -
  from assms have "m \<in> {1, 2, 3, 4, 5, 6, 7, 8, 9, 10, 11, 12}"
    by (simp only: insert_iff empty_iff) presburger
  then show ?thesis
    by (auto simp: monthLengths_def daysInMonth_def)
qed

lemma dateFromDay_end_of_month:
  assumes "1 \<le> m" "m \<le> 12"
  shows "dateFromDay (dayFromYear y + sum_list (take (nat m) (monthLengths y)) - 1)
           = (y, m - 1, daysInMonth y m)"
proof -
  define k where "k = sum_list (take (nat m) (monthLengths y)) - 1"
  have "0 < sum_list (take (nat m) (monthLengths y))"
    using assms monthLengths_facts [of y] by (intro sum_list_take_pos) auto
  moreover have "sum_list (take (nat m) (monthLengths y)) \<le> (if isLeapYear y then 366 else 365)"
    using sum_list_take_le [OF monthLengths_facts(1), of "nat m" y] monthLengths_facts(3) [of y]
    by simp
  ultimately have k: "0 \<le> k" "k < (if isLeapYear y then 366 else 365)"
    by (simp_all add: k_def)
  have "monthDate (monthLengths y) 0 k = (0 + int (nat m) - 1, monthLengths y ! (nat m - 1))"
    unfolding k_def using assms monthLengths_facts [of y]
    by (intro monthDate_end_of_month) auto
  with assms monthLengths_nth [OF assms, of y]
  have "monthDate (monthLengths y) 0 k = (m - 1, daysInMonth y m)"
    by simp
  with dateFromDay_in_year [OF k] show ?thesis
    by (simp add: k_def algebra_simps)
qed

lemma dayZero_normal:
  assumes "0 \<le> mn" "mn \<le> 11"
  shows "snd (snd (dateFromDay (makeDay ym mn 0))) = lastDayOfMonth ym mn"
proof (cases "mn = 0")
  case True
  have "dayFromYear ym = dayFromYear (ym - 1) + sum_list (take (nat 12) (monthLengths (ym - 1)))"
    using dayFromYear_step [of "ym - 1"] monthLengths_facts [of "ym - 1"] by simp
  then have "makeDay ym mn 0
      = dayFromYear (ym - 1) + sum_list (take (nat 12) (monthLengths (ym - 1))) - 1"
    using True by (simp add: makeDay_def)
  also have "dateFromDay \<dots> = (ym - 1, 12 - 1, daysInMonth (ym - 1) 12)"
    by (rule dateFromDay_end_of_month) simp_all
  finally show ?thesis using True
    by (simp add: lastDayOfMonth_def)
next
  case False
  with assms have mn: "1 \<le> mn" "mn \<le> 12" by simp_all
  have "makeDay ym mn 0 = dayFromYear ym + sum_list (take (nat mn) (monthLengths ym)) - 1"
    using assms by (simp add: makeDay_def)
  also have "dateFromDay \<dots> = (ym, mn - 1, daysInMonth ym mn)"
    using mn by (rule dateFromDay_end_of_month)
  finally show ?thesis using mn assms
    by (simp add: lastDayOfMonth_def)
qed

lemma makeDay_normal:
  "makeDay year month d = makeDay (year + month div 12) (month mod 12) d"
  by (simp add: makeDay_def Let_def)

lemma pred_div_mod_12:
  fixes month :: int
  shows "(month mod 12 - 1) div 12 + month div 12 = (month - 1) div 12
       \<and> (month mod 12 - 1) mod 12 = (month - 1) mod 12"
proof (cases "month mod 12 = 0")
  case True
  have "month = 12 * (month div 12) + month mod 12" by simp
  with True have e: "month - 1 = 12 * (month div 12 - 1) + 11" by simp
  have "(month - 1) div 12 = month div 12 - 1"
    by (rule int_div_pos_eq [OF e]) simp_all
  moreover have "(month - 1) mod 12 = 11"
    by (rule int_mod_pos_eq [OF e]) simp_all
  ultimately show ?thesis using True by simp
next
  case False
  have "0 \<le> month mod 12" "month mod 12 < 12" by simp_all
  with False have r1: "0 \<le> month mod 12 - 1" "month mod 12 - 1 < 12" by linarith+
  have "month = 12 * (month div 12) + month mod 12" by simp
  then have e: "month - 1 = 12 * (month div 12) + (month mod 12 - 1)" by simp
  have "(month - 1) div 12 = month div 12"
    by (rule int_div_pos_eq [OF e]) (use r1 in simp_all)
  moreover have "(month - 1) mod 12 = month mod 12 - 1"
    by (rule int_mod_pos_eq [OF e]) (use r1 in simp_all)
  ultimately show ?thesis using r1 by simp
qed

lemma lastDayOfMonth_normal:
  "lastDayOfMonth (year + month div 12) (month mod 12) = lastDayOfMonth year month"
  using pred_div_mod_12 [of month]
  by (simp add: lastDayOfMonth_def add.commute add.left_commute add.assoc)

lemma lastDayOfMonth_calendar:
  "1 \<le> month \<Longrightarrow> month \<le> 12 \<Longrightarrow> lastDayOfMonth year month = daysInMonth year month"
  by (simp add: lastDayOfMonth_def)

lemma lastDayOfMonth_bounds: "28 \<le> lastDayOfMonth y m" "lastDayOfMonth y m \<le> 31"
  by (simp_all add: lastDayOfMonth_def daysInMonth_def)

lemma dayZero:
  "snd (snd (dateFromDay (makeDay year month 0))) = lastDayOfMonth year month"
proof -
  have "0 \<le> month mod 12" "month mod 12 \<le> 11"
    by simp_all
  from dayZero_normal [OF this] show ?thesis
    by (subst makeDay_normal) (simp add: lastDayOfMonth_normal)
qed

subsection \<open>Decoding an expiry date\<close>

lemma parseInt_digits:
  "s \<noteq> [] \<Longrightarrow> \<forall>c\<in>set s. isDigit c \<Longrightarrow> parseInt s = Some (decimalValue s)"
  by (simp add: parseInt_def takeWhile_eq_all_conv [THEN iffD2])

lemma decimalValue_two: "decimalValue [a, b] = 10 * digitVal a + digitVal b"
  by (simp add: decimalValue_def)

lemma decimalValue_two_less: "isDigit a \<Longrightarrow> isDigit b \<Longrightarrow> decimalValue [a, b] < 100"
  using digitVal_less [of a] digitVal_less [of b] by (simp add: decimalValue_two)

lemma decimalValue_two_zero:
  "isDigit a \<Longrightarrow> isDigit b \<Longrightarrow> decimalValue [a, b] = 0 \<longleftrightarrow> a = CHR ''0'' \<and> b = CHR ''0''"
  by (auto simp: decimalValue_two isDigit_def digitVal_def)

lemma decimalValue_year:
  "decimalValue [CHR ''2'', CHR ''0'', a, b] = 2000 + decimalValue [a, b]"
  by (simp add: decimalValue_def digitVal_def)

lemma natToString_year_list:
  "isDigit a \<Longrightarrow> isDigit b \<Longrightarrow>
     natToString (decimalValue [CHR ''2'', CHR ''0'', a, b]) = [CHR ''2'', CHR ''0'', a, b]"
  using natToString_year [of a b] by simp

lemma natToString_length2:
  assumes "10 \<le> n" "n < 100"
  shows "length (natToString n) = 2"
proof -
  from assms have "n div 10 < 10" by simp
  then have "natToString (n div 10) = [''0123456789'' ! (n div 10)]"
    by (subst natToString.simps) simp
  with assms show ?thesis
    by (subst natToString.simps) simp
qed

lemma dayFromYear_nonneg: "1970 \<le> y \<Longrightarrow> 0 \<le> dayFromYear y"
  using dayFromYear_mono [of 1970 y] by (simp add: dayFromYear_1970)

lemma dayFromYear_upper: "1970 \<le> y \<Longrightarrow> dayFromYear y \<le> 366 * (y - 1970)"
  using start_pos [of "y - 1970"] by simp

lemma makeDay_bounds:
  assumes "2000 \<le> year" "year \<le> 2099" "-1 \<le> month" "month \<le> 99" "0 \<le> d" "d \<le> 99"
  shows "-1 \<le> makeDay year month d" "makeDay year month d \<le> 52000"
proof -
  let ?ym = "year + month div 12"
  let ?s = "sum_list (take (nat (month mod 12)) (monthLengths ?ym))"
  from assms have "-1 \<le> month div 12" "month div 12 \<le> 8" by simp_all
  with assms have ym: "1999 \<le> ?ym" "?ym \<le> 2107" by simp_all
  then have y: "0 \<le> dayFromYear ?ym" "dayFromYear ?ym \<le> 366 * (?ym - 1970)"
    using dayFromYear_nonneg [of ?ym] dayFromYear_upper [of ?ym] by linarith+
  have "0 \<le> ?s"
    using monthLengths_facts(1) [of ?ym]
    by (intro sum_list_nonneg) (auto dest!: in_set_takeD intro: less_imp_le)
  moreover have "?s \<le> 366"
    using sum_list_take_le [OF monthLengths_facts(1), of "nat (month mod 12)" ?ym]
      monthLengths_facts(3) [of ?ym] by (simp split: if_splits)
  ultimately show "-1 \<le> makeDay year month d" "makeDay year month d \<le> 52000"
    using y ym assms by (simp_all add: makeDay_def Let_def)
qed

lemma newDateLocal_valid:
  assumes "2000 \<le> year" "year \<le> 2099" "-1 \<le> month" "month \<le> 99" "0 \<le> d" "d \<le> 99"
    and "\<bar>tzOffset env\<bar> \<le> msPerDay"
  shows "newDateLocal env year month d = Some (makeDay year month d * msPerDay - tzOffset env)"
proof -
  from makeDay_bounds [OF assms(1-6)]
  have "\<bar>makeDay year month d * msPerDay\<bar> \<le> 52000 * msPerDay"
    by (simp add: msPerDay_def abs_le_iff)
  with assms(7) have "\<bar>makeDay year month d * msPerDay - tzOffset env\<bar> \<le> 8640000000000000"
    by (simp add: msPerDay_def abs_le_iff)
  with assms(1) show ?thesis
    by (simp add: newDateLocal_def timeClip_def Let_def)
qed

lemma getDate_dayZero:
  assumes "2000 \<le> year" "year \<le> 2099" "0 \<le> month" "month \<le> 99"
    and "\<bar>tzOffset env\<bar> \<le> msPerDay"
  shows "getDate env (newDateLocal env year month 0) = Some (lastDayOfMonth year month)"
proof -
  have "newDateLocal env year month 0 = Some (makeDay year month 0 * msPerDay - tzOffset env)"
    using assms by (intro newDateLocal_valid) simp_all
  then show ?thesis
    by (simp add: getDate_def dayZero msPerDay_def)
qed

lemma toISODate_Some: "\<exists>s. toISODate (Some t) = Inr s"
  by (cases "dateFromDay (t div msPerDay)") (simp add: toISODate_def)

lemma toISODate_nonempty: "toISODate d = Inr s \<Longrightarrow> s \<noteq> []"
  by (auto simp: toISODate_def split: option.splits prod.splits)

lemma parseExpiryDate_digits:
  assumes digs: "isDigit y1" "isDigit y2" "isDigit m1" "isDigit m2" "isDigit d1" "isDigit d2"
    and tz: "\<bar>tzOffset env\<bar> \<le> msPerDay"
  shows "\<exists>isoDate. isoDate \<noteq> [] \<and> parseExpiryDate env [y1, y2, m1, m2, d1, d2] =
     Inr \<lparr>iso = isoDate,
          ddmmyy = dayDigits (2000 + int (decimalValue [y1, y2])) (int (decimalValue [m1, m2])) [d1, d2]
                   @ [m1, m2] @ [y1, y2],
          formatted = dayDigits (2000 + int (decimalValue [y1, y2])) (int (decimalValue [m1, m2])) [d1, d2]
                   @ ''/'' @ [m1, m2] @ ''/'' @ ''20'' @ [y1, y2]\<rparr>"
proof -
  let ?year = "decimalValue [CHR ''2'', CHR ''0'', y1, y2]"
  let ?month = "decimalValue [m1, m2]"
  let ?day0 = "decimalValue [d1, d2]"
  let ?L = "lastDayOfMonth (int ?year) (int ?month)"
  have subs: "substring [y1, y2, m1, m2, d1, d2] 0 2 = [y1, y2]"
    "substring [y1, y2, m1, m2, d1, d2] 2 4 = [m1, m2]"
    "substring [y1, y2, m1, m2, d1, d2] 4 6 = [d1, d2]"
    by (simp_all add: substring_def)
  have ints: "parseInt (''20'' @ [y1, y2]) = Some ?year" "parseInt [m1, m2] = Some ?month"
    "parseInt [d1, d2] = Some ?day0"
    using digs by (simp_all add: parseInt_digits isDigit_def)
  have year: "?year = 2000 + decimalValue [y1, y2]" by (rule decimalValue_year)
  have bounds: "decimalValue [y1, y2] < 100" "?month < 100" "?day0 < 100"
    using digs by (simp_all add: decimalValue_two_less)
  then have yb: "2000 \<le> int ?year" "int ?year \<le> 2099" by (simp_all add: year)
  define day where "day = (if ?day0 = 0 then ?L else int ?day0)"
  have dayopt: "(if ?day0 = 0 then getDate env (newDateLocal env (int ?year) (int ?month) 0)
                 else Some (int ?day0)) = Some day"
    using getDate_dayZero [OF yb _ _ tz, of "int ?month"] bounds by (simp add: day_def)
  have dayb: "0 \<le> day" "day \<le> 99"
    using lastDayOfMonth_bounds [of "int ?year" "int ?month"] bounds by (auto simp: day_def)
  have valid: "newDateLocal env (int ?year) (int ?month - 1) day
      = Some (makeDay (int ?year) (int ?month - 1) day * msPerDay - tzOffset env)"
    using bounds by (intro newDateLocal_valid yb dayb tz) simp_all
  then obtain isoDate where isoDate:
    "toISODate (newDateLocal env (int ?year) (int ?month - 1) day) = Inr isoDate"
    using toISODate_Some by force
  have daystr: "padStart 2 CHR ''0'' (intToString day)
      = dayDigits (2000 + int (decimalValue [y1, y2])) (int ?month) [d1, d2]"
  proof (cases "?day0 = 0")
    case True
    with digs have z: "[d1, d2] = ''00''" by (simp add: decimalValue_two_zero)
    from True have "day = ?L" by (simp add: day_def)
    moreover have "28 \<le> ?L" "?L \<le> 31" by (rule lastDayOfMonth_bounds)+
    ultimately have "length (natToString (nat day)) = 2" "0 \<le> day"
      by (simp_all add: natToString_length2)
    then have "padStart 2 CHR ''0'' (intToString day) = natToString (nat day)"
      by (simp add: padStart_def intToString_def)
    with \<open>day = ?L\<close> z show ?thesis by (simp add: dayDigits_def year)
  next
    case False
    with digs have nz: "[d1, d2] \<noteq> ''00''" by (simp add: decimalValue_two_zero)
    from False have "intToString day = natToString ?day0"
      by (simp add: day_def intToString_def)
    moreover have "dayDigits (2000 + int (decimalValue [y1, y2])) (int ?month) [d1, d2] = [d1, d2]"
      unfolding dayDigits_def by (simp only: nz if_False)
    ultimately show ?thesis using digs by (simp add: natToString_two)
  qed
  have "parseExpiryDate env [y1, y2, m1, m2, d1, d2] =
     Inr \<lparr>iso = isoDate,
          ddmmyy = padStart 2 CHR ''0'' (intToString day)
                   @ padStart 2 CHR ''0'' (natToString ?month) @ [y1, y2],
          formatted = padStart 2 CHR ''0'' (intToString day) @ ''/''
                   @ padStart 2 CHR ''0'' (natToString ?month) @ ''/'' @ natToString ?year\<rparr>"
    unfolding parseExpiryDate_def subs ints using dayopt isoDate by simp
  with daystr digs toISODate_nonempty [OF isoDate] show ?thesis
    by (simp add: natToString_two natToString_year_list)
qed

subsection \<open>The decoder returns a record\<close>

lemma extractFields_expiry:
  assumes "extractFields env code res = Inr r"
  shows "(case matchAfter ''(17)'' isDigit 6 (Some 6) code of
            None \<Rightarrow> expiry r = expiry res \<and> expiryDDMMYY r = expiryDDMMYY res
                    \<and> expiryFormatted r = expiryFormatted res
                    \<and> expiryStatus r = expiryStatus res
          | Some e \<Rightarrow> (\<exists>p. parseExpiryDate env e = Inr p \<and> expiry r = Some (iso p)
                    \<and> expiryDDMMYY r = ddmmyy p \<and> expiryFormatted r = formatted p
                    \<and> expiryStatus r = calculateExpiryStatus env (Some (iso p))))"
  using assms
  by (auto simp: extractFields_def Let_def split: option.splits sum.splits)

lemma extractFields_total:
  assumes "\<And>e. matchAfter ''(17)'' isDigit 6 (Some 6) code = Some e
             \<Longrightarrow> \<exists>p. parseExpiryDate env e = Inr p"
  shows "\<exists>r. extractFields env code res = Inr r"
  using assms
  by (fastforce simp: extractFields_def Let_def split: option.splits sum.splits)

lemma matchAfter_Some:
  assumes "matchAfter tag cls lo (Some h) s = Some x"
  shows "(\<forall>c\<in>set x. cls c) \<and> min lo h \<le> length x \<and> length x \<le> h"
  using assms
proof (induction s)
  case Nil
  then show ?case by simp
next
  case (Cons c cs)
  show ?case
  proof (cases "startsWith (c # cs) tag \<and> lo \<le> length (takeWhile cls (drop (length tag) (c # cs)))")
    case True
    with Cons.prems have x: "x = take h (takeWhile cls (drop (length tag) (c # cs)))"
      by (simp add: Let_def)
    have "\<forall>c\<in>set x. cls c"
      unfolding x by (auto dest!: in_set_takeD dest: set_takeWhileD)
    with True x show ?thesis by auto
  next
    case False
    with Cons show ?thesis by (simp add: Let_def)
  qed
qed

lemma six_list: "length e = 6 \<Longrightarrow> \<exists>a b c d f g. e = [a, b, c, d, f, g]"
  by (auto simp: length_Suc_conv numeral_eq_Suc)

lemma parseExpiryDate_match_total:
  assumes "matchAfter ''(17)'' isDigit 6 (Some 6) code = Some e" "\<bar>tzOffset env\<bar> \<le> msPerDay"
  shows "\<exists>p. parseExpiryDate env e = Inr p \<and> iso p \<noteq> []"
proof -
  from matchAfter_Some [OF assms(1)] have d: "\<forall>c\<in>set e. isDigit c" and "length e = 6"
    by auto
  then obtain a b c d f g where e: "e = [a, b, c, d, f, g]"
    using six_list by blast
  with d parseExpiryDate_digits [of a b c d f g env] assms(2) show ?thesis
    by auto
qed

lemma decodeFrom_total:
  assumes "\<bar>tzOffset env\<bar> \<le> msPerDay"
  shows "\<exists>r. decodeFrom env code res = Inr r"
proof -
  have "\<exists>r. extractFields env c res = Inr r" for c
    by (rule extractFields_total) (use parseExpiryDate_match_total assms in blast)
  then show ?thesis
    by (simp add: decodeFrom_def Let_def)
qed

lemma parseGS1_total:
  assumes "\<bar>tzOffset env\<bar> \<le> msPerDay"
  shows "\<exists>r. parseGS1 env v = Inr r"
  using decodeFrom_total [OF assms]
  by (cases v) (simp_all add: parseGS1_def Let_def)

subsection \<open>The day 00\<close>

lemma parseGS1_expiry_example:
  assumes "\<bar>tzOffset env\<bar> \<le> msPerDay"
  shows "\<exists>r. parseGS1 env (JSString ''(17)250100'') = Inr r
           \<and> expiryFormatted r = ''31/01/2025'' \<and> expiryDDMMYY r = ''310125''"
proof -
  have day: "dayDigits (2000 + int (decimalValue ''25'')) (int (decimalValue ''01'')) ''00'' = ''31''"
    by (simp add: dayDigits_def lastDayOfMonth_def daysInMonth_def decimalValue_def digitVal_def
        natToString.simps)
  from parseExpiryDate_digits [of "CHR ''2''" "CHR ''5''" "CHR ''0''" "CHR ''1''" "CHR ''0''" "CHR ''0''" env]
    assms
  obtain isoDate where pe: "parseExpiryDate env ''250100'' =
      Inr \<lparr>iso = isoDate, ddmmyy = ''310125'', formatted = ''31/01/2025''\<rparr>"
    unfolding day by (auto simp: isDigit_def)
  have code: "replaceGS (trim ''(17)250100'') = ''(17)250100''"
    by (simp add: trim_def isSpace_def replaceGS_def)
  have m: "matchAfter ''(01)'' isDigit 12 (Some 14) ''(17)250100'' = None"
    "matchAfter ''(17)'' isDigit 6 (Some 6) ''(17)250100'' = Some ''250100''"
    "matchAfter ''(10)'' isBatchChar 1 None ''(17)250100'' = None"
    "matchAfter ''(21)'' isBatchChar 1 None ''(17)250100'' = None"
    "matchAfter ''(30)'' isDigit 1 None ''(17)250100'' = None"
    by (simp_all add: startsWith_def isDigit_def Let_def)
  have ef: "extractFields env ''(17)250100'' res =
      Inr (res\<lparr>expiry := Some isoDate, expiryDDMMYY := ''310125'',
               expiryFormatted := ''31/01/2025'',
               expiryStatus := calculateExpiryStatus env (Some isoDate)\<rparr>)" for res
    unfolding extractFields_def m by (simp add: Let_def pe)
  have t: "\<not> testDigits 5 21 ''(17)250100''" "\<not> testDigits 5 7 ''(17)250100''"
    "includesChar ''(17)250100'' CHR ''(''"
    by (simp_all add: testDigits_def isDigit_def includesChar_def)
  have df: "decodeFrom env ''(17)250100'' res =
      Inr (res\<lparr>expiry := Some isoDate, expiryDDMMYY := ''310125'',
               expiryFormatted := ''31/01/2025'',
               expiryStatus := calculateExpiryStatus env (Some isoDate)\<rparr>)" for res
    by (simp add: decodeFrom_def t ef Let_def)
  show ?thesis
    by (simp add: parseGS1_def code t df Let_def)
qed

text \<open>
  C4. For every six-digit field \<open>YYMMDD\<close>, \<open>parseExpiryDate\<close> returns the compact string
  \<open>DD MM YY\<close> and the display string \<open>DD/MM/20YY\<close>, in which the month and the two year
  digits are the characters of the input and \<open>DD\<close> is the input's day, except that the day
  \<open>00\<close> is replaced by the last day of the month (for the months 1 to 12 the number of
  days of that month of the year \<open>20YY\<close>, February of a leap year having 29). Decoding
  \<open>(17)250100\<close> gives the display \<open>31/01/2025\<close> and the compact form \<open>310125\<close>. The
  time zone offset of the host is less than a day.
\<close>

theorem parseExpiryDate_day_zero:
  assumes "\<forall>c\<in>set [y1, y2, m1, m2, d1, d2]. isDigit c" and "\<bar>tzOffset env\<bar> \<le> msPerDay"
  shows "(\<exists>isoDate. parseExpiryDate env [y1, y2, m1, m2, d1, d2] =
            Inr \<lparr>iso = isoDate,
                 ddmmyy = dayDigits (2000 + int (decimalValue [y1, y2])) (int (decimalValue [m1, m2]))
                            [d1, d2] @ [m1, m2] @ [y1, y2],
                 formatted = dayDigits (2000 + int (decimalValue [y1, y2])) (int (decimalValue [m1, m2]))
                            [d1, d2] @ ''/'' @ [m1, m2] @ ''/'' @ ''20'' @ [y1, y2]\<rparr>)
       \<and> dayDigits (2000 + int (decimalValue [y1, y2])) (int (decimalValue [m1, m2])) ''00''
           = natToString (nat (lastDayOfMonth (2000 + int (decimalValue [y1, y2]))
                                 (int (decimalValue [m1, m2]))))
       \<and> (1 \<le> decimalValue [m1, m2] \<and> decimalValue [m1, m2] \<le> 12 \<longrightarrow>
            lastDayOfMonth (2000 + int (decimalValue [y1, y2])) (int (decimalValue [m1, m2]))
              = daysInMonth (2000 + int (decimalValue [y1, y2])) (int (decimalValue [m1, m2])))
       \<and> (\<exists>r. parseGS1 env (JSString ''(17)250100'') = Inr r
             \<and> expiryFormatted r = ''31/01/2025'' \<and> expiryDDMMYY r = ''310125'')"
proof (intro conjI impI)
  from assms have d: "isDigit y1" "isDigit y2" "isDigit m1" "isDigit m2" "isDigit d1" "isDigit d2"
    by simp_all
  from parseExpiryDate_digits [OF d assms(2)]
  show "\<exists>isoDate. parseExpiryDate env [y1, y2, m1, m2, d1, d2] =
            Inr \<lparr>iso = isoDate,
                 ddmmyy = dayDigits (2000 + int (decimalValue [y1, y2])) (int (decimalValue [m1, m2]))
                            [d1, d2] @ [m1, m2] @ [y1, y2],
                 formatted = dayDigits (2000 + int (decimalValue [y1, y2])) (int (decimalValue [m1, m2]))
                            [d1, d2] @ ''/'' @ [m1, m2] @ ''/'' @ ''20'' @ [y1, y2]\<rparr>"
    by blast
  show "dayDigits (2000 + int (decimalValue [y1, y2])) (int (decimalValue [m1, m2])) ''00''
           = natToString (nat (lastDayOfMonth (2000 + int (decimalValue [y1, y2]))
                                 (int (decimalValue [m1, m2]))))"
    by (simp add: dayDigits_def)
  show "lastDayOfMonth (2000 + int (decimalValue [y1, y2])) (int (decimalValue [m1, m2]))
              = daysInMonth (2000 + int (decimalValue [y1, y2])) (int (decimalValue [m1, m2]))"
    if "1 \<le> decimalValue [m1, m2] \<and> decimalValue [m1, m2] \<le> 12"
    using that by (intro lastDayOfMonth_calendar) simp_all
  show "\<exists>r. parseGS1 env (JSString ''(17)250100'') = Inr r
             \<and> expiryFormatted r = ''31/01/2025'' \<and> expiryDDMMYY r = ''310125''"
    by (rule parseGS1_expiry_example) (rule assms(2))
qed

theorem parseExpiryDate_day_zero_witness:
  "\<exists>isoDate. parseExpiryDate \<lparr>tzOffset = 0, now = 0\<rparr> ''240200'' =
      Inr \<lparr>iso = isoDate, ddmmyy = ''290224'', formatted = ''29/02/2024''\<rparr>"
proof -
  have h1: "\<forall>c\<in>set [CHR ''2'', CHR ''4'', CHR ''0'', CHR ''2'', CHR ''0'', CHR ''0'']. isDigit c"
    by (simp add: isDigit_def)
  have h2: "\<bar>tzOffset \<lparr>tzOffset = 0, now = 0\<rparr>\<bar> \<le> msPerDay"
    by (simp add: msPerDay_def)
  have day: "dayDigits (2000 + int (decimalValue ''24'')) (int (decimalValue ''02'')) ''00'' = ''29''"
    by (simp add: dayDigits_def lastDayOfMonth_def daysInMonth_def isLeapYear_def decimalValue_def
        digitVal_def natToString.simps)
  from parseExpiryDate_day_zero [OF h1 h2] show ?thesis
    unfolding day by simp
qed

end
